theory Spec2Isabelle
  imports Complex_Main
begin

section \<open>The overlap graph\<close>

text \<open>
  Modelled from the spec: the class \<open>DiGraph\<close>, which the program imports from networkx and
  whose code is not among the sources. The specification (section 3) has a directed graph
  whose nodes are strings and whose edges carry an integer weight, one edge per ordered
  pair of nodes. In the library the nodes and the adjacency are insertion-ordered
  dictionaries: the model keeps the nodes in insertion order and the weighted edges in
  insertion order, and the successors and predecessors of a node are read in that order.
  Every exception that the program can meet is a value of \<open>error\<close>.
\<close>

datatype error =
    NetworkXError
  | NodeNotFound
  | NetworkXPointlessConcept
  | StatisticsError
  | RuntimeError
  | TypeError
  | IndexError

text \<open>
  The functions that modify the graph work on one graph object and hand it back. The model
  passes the graph along: \<open>Returned s\<close> is a call that returned and left the state \<open>s\<close>,
  \<open>Raised e s\<close> a call that stopped with the exception \<open>e\<close> and left the state \<open>s\<close>. A
  function that only reads the graph gives \<open>Inl e\<close> for an exception and \<open>Inr v\<close> for a value.
\<close>

datatype 's outcome = Returned 's | Raised error 's

fun state_of :: "'s outcome \<Rightarrow> 's" where
  "state_of (Returned s) = s"
| "state_of (Raised e s) = s"

record 'a DiGraph =
  nodes :: "'a list"
  edges :: "('a \<times> 'a \<times> int) list"

definition empty_graph :: "'a DiGraph" where
  "empty_graph = \<lparr>nodes = [], edges = []\<rparr>"

definition successors :: "'a DiGraph \<Rightarrow> 'a \<Rightarrow> 'a list" where
  "successors g n = map (\<lambda>e. fst (snd e)) (filter (\<lambda>e. fst e = n) (edges g))"

definition predecessors :: "'a DiGraph \<Rightarrow> 'a \<Rightarrow> 'a list" where
  "predecessors g n = map fst (filter (\<lambda>e. fst (snd e) = n) (edges g))"

definition in_degree :: "'a DiGraph \<Rightarrow> 'a \<Rightarrow> nat" where
  "in_degree g n = length (predecessors g n)"

definition out_degree :: "'a DiGraph \<Rightarrow> 'a \<Rightarrow> nat" where
  "out_degree g n = length (successors g n)"

definition add_node :: "'a \<Rightarrow> 'a DiGraph \<Rightarrow> 'a DiGraph" where
  "add_node n g = (if n \<in> set (nodes g) then g else g\<lparr>nodes := nodes g @ [n]\<rparr>)"

text \<open>Modelled from the spec: \<open>add_edge(u, v, weight=w)\<close> of the library. Both ends become
  nodes, a new edge is appended, an existing edge keeps its place and takes the new
  weight.\<close>

definition add_edge :: "'a \<Rightarrow> 'a \<Rightarrow> int \<Rightarrow> 'a DiGraph \<Rightarrow> 'a DiGraph" where
  "add_edge u v w g =
     (let g1 = add_node v (add_node u g) in
      if \<exists>e \<in> set (edges g1). fst e = u \<and> fst (snd e) = v
      then g1\<lparr>edges := map (\<lambda>e. if fst e = u \<and> fst (snd e) = v then (u, v, w) else e) (edges g1)\<rparr>
      else g1\<lparr>edges := edges g1 @ [(u, v, w)]\<rparr>)"

text \<open>Modelled from the spec: \<open>remove_nodes_from\<close> and \<open>remove_node\<close> of the library, the
  removal of nodes that the specification allows after construction. \<open>remove_nodes_from\<close>
  drops the nodes it finds and their edges, and ignores the others; \<open>remove_node\<close> raises
  \<open>NetworkXError\<close> on a node that is not in the graph.\<close>

definition remove_nodes_from :: "'a list \<Rightarrow> 'a DiGraph \<Rightarrow> 'a DiGraph" where
  "remove_nodes_from ns g =
     \<lparr>nodes = filter (\<lambda>n. n \<notin> set ns) (nodes g),
      edges = filter (\<lambda>e. fst e \<notin> set ns \<and> fst (snd e) \<notin> set ns) (edges g)\<rparr>"

definition remove_node :: "'a \<Rightarrow> 'a DiGraph \<Rightarrow> 'a DiGraph outcome" where
  "remove_node n g =
     (if n \<in> set (nodes g) then Returned (remove_nodes_from [n] g)
      else Raised NetworkXError g)"

section \<open>remove_paths\<close>

text \<open>The inner loop \<open>for node in path[start:end]: graph.remove_node(node)\<close>.\<close>

fun remove_each :: "'a list \<Rightarrow> 'a DiGraph \<Rightarrow> 'a DiGraph outcome" where
  "remove_each [] g = Returned g"
| "remove_each (n # ns) g =
     (case remove_node n g of
        Raised e g' \<Rightarrow> Raised e g'
      | Returned g' \<Rightarrow> remove_each ns g')"

text \<open>The Python slice \<open>path[start:end]\<close> for \<open>0 \<le> start\<close>, \<open>0 \<le> end\<close>.\<close>

definition slice :: "'a list \<Rightarrow> nat \<Rightarrow> nat \<Rightarrow> 'a list" where
  "slice xs start end = drop start (take end xs)"

fun remove_paths :: "'a DiGraph \<Rightarrow> 'a list list \<Rightarrow> bool \<Rightarrow> bool \<Rightarrow> 'a DiGraph outcome" where
  "remove_paths g [] delete_entry_node delete_sink_node = Returned g"
| "remove_paths g (path # rest) delete_entry_node delete_sink_node =
     (if length path < 2 then remove_paths g rest delete_entry_node delete_sink_node
      else
        (let start = (if delete_entry_node then 0 else 1);
             end = (if delete_sink_node then length path else length path - 1)
         in case remove_each (slice path start end) g of
              Raised e g' \<Rightarrow> Raised e g'
            | Returned g' \<Rightarrow> remove_paths g' rest delete_entry_node delete_sink_node))"

section \<open>Sources and sinks\<close>

definition get_starting_nodes :: "'a DiGraph \<Rightarrow> 'a list" where
  "get_starting_nodes g = filter (\<lambda>n. in_degree g n = 0) (nodes g)"

definition get_sink_nodes :: "'a DiGraph \<Rightarrow> 'a list" where
  "get_sink_nodes g = filter (\<lambda>n. out_degree g n = 0) (nodes g)"

section \<open>solve_out_tips\<close>

text \<open>The body of \<open>solve_out_tips\<close> is the single statement \<open>pass\<close>: the call returns
  \<open>None\<close> and leaves the graph object as it was. The model returns the value of the call
  and the graph after it.\<close>

definition solve_out_tips :: "'a DiGraph \<Rightarrow> 'a list \<Rightarrow> 'a DiGraph option \<times> 'a DiGraph" where
  "solve_out_tips g ending_nodes = (None, g)"

text \<open>A graph with an exit tip: \<open>B\<close> branches to the sinks \<open>C\<close> (weight 10) and \<open>D\<close>
  (weight 1).\<close>

definition out_tip_graph :: "string DiGraph" where
  "out_tip_graph =
     add_edge ''B'' ''D'' 1 (add_edge ''B'' ''C'' 10 (add_edge ''A'' ''B'' 10 empty_graph))"

section \<open>Means and path weights\<close>

text \<open>
  Modelled from the spec: \<open>statistics.mean\<close> of the Python library, the mean of the
  specification (section 4.3) that fails when there is nothing to average. It raises
  \<open>StatisticsError\<close> on an empty list and otherwise returns the exact mean of the integers
  (as an integer when it is one, else as the nearest float). The model keeps the exact
  rational value where the library rounds a mean that is not an integer to the nearest
  float; the means evaluated on the example graphs below are integers, which the library
  returns as they are.
\<close>

definition mean :: "int list \<Rightarrow> error + rat" where
  "mean ws = (if ws = [] then Inl StatisticsError
              else Inr (of_int (sum_list ws) / of_int (int (length ws))))"

text \<open>Modelled from the spec: \<open>graph.subgraph(path).edges(data=True)\<close> of the library, the
  edges of the subgraph induced by the nodes of \<open>path\<close>: every edge of the graph with both
  ends among these nodes.\<close>

definition subgraph_edges :: "'a DiGraph \<Rightarrow> 'a list \<Rightarrow> ('a \<times> 'a \<times> int) list" where
  "subgraph_edges g path =
     filter (\<lambda>e. fst e \<in> set path \<and> fst (snd e) \<in> set path) (edges g)"

definition path_average_weight :: "'a DiGraph \<Rightarrow> 'a list \<Rightarrow> error + rat" where
  "path_average_weight g path = mean (map (\<lambda>e. snd (snd e)) (subgraph_edges g path))"

text \<open>The words of the specification: the mean of the weights of the edges between
  consecutive nodes of the path, where \<open>edge_weight\<close> reads \<open>graph[u][v]["weight"]\<close>.\<close>

definition edge_weight :: "'a DiGraph \<Rightarrow> 'a \<times> 'a \<Rightarrow> int" where
  "edge_weight g uv =
     (case filter (\<lambda>e. (fst e, fst (snd e)) = uv) (edges g) of
        [] \<Rightarrow> 0
      | e # _ \<Rightarrow> snd (snd e))"

definition consecutive_pairs :: "'a list \<Rightarrow> ('a \<times> 'a) list" where
  "consecutive_pairs path = zip path (tl path)"

definition is_edge :: "'a DiGraph \<Rightarrow> 'a \<times> 'a \<Rightarrow> bool" where
  "is_edge g uv = (uv \<in> set (map (\<lambda>e. (fst e, fst (snd e))) (edges g)))"

definition is_path :: "'a DiGraph \<Rightarrow> 'a list \<Rightarrow> bool" where
  "is_path g path = list_all (is_edge g) (consecutive_pairs path)"

definition consecutive_mean :: "'a DiGraph \<Rightarrow> 'a list \<Rightarrow> rat" where
  "consecutive_mean g path =
     of_int (sum_list (map (edge_weight g) (consecutive_pairs path)))
       / of_int (int (length path - 1))"

section \<open>Simple paths\<close>

text \<open>
  Modelled from the spec: \<open>all_simple_paths(G, source, target)\<close>, which the program imports
  from networkx and whose code is not among the sources. The specification (sections 4.3
  and 9) has every path from source to target in which no node repeats, found by a
  depth-first search with a per-path visited set. The library's search keeps the
  current path and, for its last node, the out-edges still to try. \<open>explore g target cutoff
  path cands\<close> is the list of paths it yields, in order, from the moment the current path is
  \<open>path\<close> and the nodes still to try after it are \<open>cands\<close>: a candidate already on the path
  is passed over; one that is the target is yielded; the search goes on through a
  candidate when the path is shorter than the cutoff and the target is neither on the path
  nor the candidate itself. The search starts from the empty path with the source as the
  only candidate and the cutoff \<open>len(G) - 1\<close>, so a source equal to the target yields the
  one-node path (older versions of the library yield nothing there; no result below
  depends on it). A source that is not a node raises \<open>NodeNotFound\<close>; the model gives the
  same for a target that is not a node (the program only asks for targets taken from the
  graph).
\<close>

function explore :: "'a DiGraph \<Rightarrow> 'a \<Rightarrow> nat \<Rightarrow> 'a list \<Rightarrow> 'a list \<Rightarrow> 'a list list" where
  "explore g target cutoff path [] = []"
| "explore g target cutoff path (n # rest) =
     (if n \<in> set path then explore g target cutoff path rest
      else (if n = target then [path @ [n]] else [])
         @ (if length path < cutoff \<and> target \<notin> set path \<and> n \<noteq> target
            then explore g target cutoff (path @ [n]) (successors g n) else [])
         @ explore g target cutoff path rest)"
  by pat_completeness auto
termination
  by (relation "measures [\<lambda>(g, t, c, p, cs). c - length p, \<lambda>(g, t, c, p, cs). length cs]") auto

definition all_simple_paths :: "'a DiGraph \<Rightarrow> 'a \<Rightarrow> 'a \<Rightarrow> error + 'a list list" where
  "all_simple_paths g source target =
     (if source \<notin> set (nodes g) then Inl NodeNotFound
      else if target \<notin> set (nodes g) then Inl NodeNotFound
      else Inr (explore g target (length (nodes g) - 1) [] [source]))"

text \<open>Modelled from the spec: reachability, forwards for \<open>has_path\<close> and backwards for the
  ancestors of a node (section 9: reverse reachability), both library functions.
  \<open>closure next k xs\<close> holds the nodes found from \<open>xs\<close> in at most \<open>k\<close> rounds along \<open>next\<close>; as
  many rounds as the graph has nodes find them all.\<close>

fun closure :: "('a \<Rightarrow> 'a list) \<Rightarrow> nat \<Rightarrow> 'a list \<Rightarrow> 'a list" where
  "closure next 0 xs = xs"
| "closure next (Suc k) xs =
     closure next k (xs @ filter (\<lambda>n. n \<notin> set xs) (remdups (concat (map next xs))))"

text \<open>Modelled from the spec: \<open>has_path\<close> of the library; it raises \<open>NodeNotFound\<close> when an
  end is not a node.\<close>

definition has_path :: "'a DiGraph \<Rightarrow> 'a \<Rightarrow> 'a \<Rightarrow> error + bool" where
  "has_path g source target =
     (if source \<notin> set (nodes g) \<or> target \<notin> set (nodes g) then Inl NodeNotFound
      else Inr (target \<in> set (closure (successors g) (length (nodes g)) [source])))"

text \<open>The interior \<open>path[1:-1]\<close> of a path.\<close>

definition interior :: "'a list \<Rightarrow> 'a list" where
  "interior path = tl (butlast path)"

section \<open>Choosing the best path\<close>

text \<open>\<open>[path_average_weight(graph, p) for p in paths]\<close>, stopping at the first failure.\<close>

fun path_weights :: "'a DiGraph \<Rightarrow> 'a list list \<Rightarrow> error + rat list" where
  "path_weights g [] = Inr []"
| "path_weights g (p # ps) =
     (case path_average_weight g p of
        Inl e \<Rightarrow> Inl e
      | Inr w \<Rightarrow> (case path_weights g ps of Inl e \<Rightarrow> Inl e | Inr ws \<Rightarrow> Inr (w # ws)))"

text \<open>Python's \<open>max(paths, key=...)\<close> and \<open>weights.index(max(weights))\<close> both take the first
  item of greatest weight: a later item replaces the best so far only when it is strictly
  heavier.\<close>

fun first_max :: "'p \<Rightarrow> rat \<Rightarrow> ('p \<times> rat) list \<Rightarrow> 'p" where
  "first_max best bw [] = best"
| "first_max best bw ((p, w) # rest) =
     (if bw < w then first_max p w rest else first_max best bw rest)"

definition heaviest_path :: "'a list list \<Rightarrow> rat list \<Rightarrow> 'a list" where
  "heaviest_path paths ws =
     (case zip paths ws of [] \<Rightarrow> [] | (p, w) # rest \<Rightarrow> first_max p w rest)"

text \<open>The nodes marked by \<open>for path in paths: if path != best_path:
  nodes_to_remove.extend(path[1:-1])\<close>.\<close>

definition marks_of :: "'a list list \<Rightarrow> 'a list \<Rightarrow> 'a list" where
  "marks_of paths best = concat (map interior (filter (\<lambda>p. p \<noteq> best) paths))"

section \<open>solve_entry_tips\<close>

definition entry_tip_marks :: "'a DiGraph \<Rightarrow> 'a \<Rightarrow> error + 'a list" where
  "entry_tip_marks g node =
     (if node \<notin> set (nodes g) then Inl NetworkXError
      else case successors g node of
        [successor] \<Rightarrow>
          (if length (predecessors g successor) > 1
           then (case all_simple_paths g node successor of
                   Inl e \<Rightarrow> Inl e
                 | Inr paths \<Rightarrow>
                     (if paths = [] then Inr []
                      else case path_weights g paths of
                             Inl e \<Rightarrow> Inl e
                           | Inr ws \<Rightarrow> Inr (marks_of paths (heaviest_path paths ws))))
           else Inr [])
      | _ \<Rightarrow> Inr [])"

fun entry_tips_loop :: "'a DiGraph \<Rightarrow> 'a list \<Rightarrow> 'a list \<Rightarrow> error + 'a list" where
  "entry_tips_loop g nodes_to_remove [] = Inr nodes_to_remove"
| "entry_tips_loop g nodes_to_remove (node # rest) =
     (case entry_tip_marks g node of
        Inl e \<Rightarrow> Inl e
      | Inr ms \<Rightarrow> entry_tips_loop g (nodes_to_remove @ ms) rest)"

definition solve_entry_tips :: "'a DiGraph \<Rightarrow> 'a list \<Rightarrow> 'a DiGraph outcome" where
  "solve_entry_tips g starting_nodes =
     (case entry_tips_loop g [] starting_nodes of
        Inl e \<Rightarrow> Raised e g
      | Inr nodes_to_remove \<Rightarrow> Returned (remove_nodes_from nodes_to_remove g))"

text \<open>A graph with an entry tip: the heavy path \<open>M1 \<rightarrow> M2 \<rightarrow> C\<close> (weights 10) and the light
  source \<open>T\<close> feeding \<open>C\<close> (weight 1).\<close>

definition entry_tip_graph :: "string DiGraph" where
  "entry_tip_graph =
     add_edge ''T'' ''C'' 1 (add_edge ''M2'' ''C'' 10 (add_edge ''M1'' ''M2'' 10 empty_graph))"

section \<open>Lowest common ancestor\<close>

text \<open>Modelled from the spec: \<open>is_directed_acyclic_graph\<close> of the library, which
  \<open>lowest_common_ancestor\<close> asks first. Strip, round after round, the nodes that have no
  predecessor among the nodes left; the graph is acyclic when no node is left.\<close>

fun strip_sources :: "('a \<times> 'a \<times> int) list \<Rightarrow> nat \<Rightarrow> 'a list \<Rightarrow> 'a list" where
  "strip_sources es 0 ns = ns"
| "strip_sources es (Suc k) ns =
     strip_sources es k
       (filter (\<lambda>n. \<exists>e \<in> set es. fst (snd e) = n \<and> fst e \<in> set ns) ns)"

definition is_directed_acyclic_graph :: "'a DiGraph \<Rightarrow> bool" where
  "is_directed_acyclic_graph g = (strip_sources (edges g) (length (nodes g)) (nodes g) = [])"

text \<open>Modelled from the spec: the ancestors of a node together with the node itself, found
  by reverse reachability.\<close>

definition ancestors_and_self :: "'a DiGraph \<Rightarrow> 'a \<Rightarrow> 'a list" where
  "ancestors_and_self g v = closure (predecessors g) (length (nodes g)) [v]"

text \<open>Modelled from the spec: the descent to the closest common ancestor. From a common
  ancestor, step to the first successor that is a common ancestor too, as long as there is
  one. In an acyclic graph this takes fewer steps than there are nodes.\<close>

fun descend :: "'a DiGraph \<Rightarrow> 'a list \<Rightarrow> nat \<Rightarrow> 'a \<Rightarrow> 'a" where
  "descend g common 0 a = a"
| "descend g common (Suc k) a =
     (case filter (\<lambda>n. n \<in> set common) (successors g a) of
        [] \<Rightarrow> a
      | lower # _ \<Rightarrow> descend g common k lower)"

text \<open>
  Modelled from the spec: \<open>lowest_common_ancestor(G, node1, node2, default=None)\<close>, which the
  program imports from networkx and whose code is not among the sources. The
  specification (sections 4.4 and 9) has a common ancestor of the predecessors that has
  no common ancestor among its descendants, found through the intersection of the sets of
  ancestors. The library's function takes two nodes. It raises \<open>NetworkXError\<close> on a graph
  with a cycle, \<open>NetworkXPointlessConcept\<close> on a graph without nodes, \<open>NodeNotFound\<close> on a node
  that is not in the graph; it returns \<open>default\<close> when the two nodes have no common ancestor.
  Otherwise it starts from the first element of the set of the common ancestors in the
  iteration order of a Python set, which the function \<open>pick\<close> stands for, and descends.
\<close>

definition lowest_common_ancestor ::
  "('a list \<Rightarrow> 'a) \<Rightarrow> 'a DiGraph \<Rightarrow> 'a \<Rightarrow> 'a \<Rightarrow> 'a option \<Rightarrow> error + 'a option" where
  "lowest_common_ancestor pick g node1 node2 default_value =
     (if \<not> is_directed_acyclic_graph g then Inl NetworkXError
      else if nodes g = [] then Inl NetworkXPointlessConcept
      else if node1 \<notin> set (nodes g) \<or> node2 \<notin> set (nodes g) then Inl NodeNotFound
      else
        (let common = filter (\<lambda>n. n \<in> set (ancestors_and_self g node1)
                                 \<and> n \<in> set (ancestors_and_self g node2)) (nodes g)
         in if common = [] then Inr default_value
            else Inr (Some (descend g common (length (nodes g)) (pick common)))))"

text \<open>The call \<open>lowest_common_ancestor(graph, *predecessors)\<close>: two predecessors are the two
  nodes; a third one lands in the parameter \<open>default\<close>; with more (or fewer than two) the
  call does not fit the function's parameters and raises \<open>TypeError\<close>.\<close>

definition lca_of_predecessors ::
  "('a list \<Rightarrow> 'a) \<Rightarrow> 'a DiGraph \<Rightarrow> 'a list \<Rightarrow> error + 'a option" where
  "lca_of_predecessors pick g preds =
     (case preds of
        [p1, p2] \<Rightarrow> lowest_common_ancestor pick g p1 p2 None
      | [p1, p2, p3] \<Rightarrow> lowest_common_ancestor pick g p1 p2 (Some p3)
      | _ \<Rightarrow> Inl TypeError)"

section \<open>solve_bubble\<close>

text \<open>The first loop of \<open>solve_bubble\<close>: the best path so far (\<open>None\<close> at the start), its
  weight and its length (both \<open>-1\<close> at the start).\<close>

fun best_of :: "'a DiGraph \<Rightarrow> 'a list option \<Rightarrow> rat \<Rightarrow> int \<Rightarrow> 'a list list
                  \<Rightarrow> error + 'a list option" where
  "best_of g best_path best_weight best_length [] = Inr best_path"
| "best_of g best_path best_weight best_length (path # rest) =
     (case path_average_weight g path of
        Inl e \<Rightarrow> Inl e
      | Inr weight \<Rightarrow>
          (let len = int (length path) in
           if weight > best_weight \<or> (weight = best_weight \<and> len > best_length)
           then best_of g (Some path) weight len rest
           else best_of g best_path best_weight best_length rest))"

text \<open>The second loop: \<open>graph.remove_nodes_from(path[1:-1])\<close> for every path that is not the
  best one.\<close>

fun remove_other_paths :: "'a list option \<Rightarrow> 'a list list \<Rightarrow> 'a DiGraph \<Rightarrow> 'a DiGraph" where
  "remove_other_paths best_path [] g = g"
| "remove_other_paths best_path (path # rest) g =
     (if Some path \<noteq> best_path
      then remove_other_paths best_path rest (remove_nodes_from (interior path) g)
      else remove_other_paths best_path rest g)"

definition solve_bubble :: "'a DiGraph \<Rightarrow> 'a \<Rightarrow> 'a \<Rightarrow> 'a DiGraph outcome" where
  "solve_bubble g ancestor_node descendant_node =
     (case all_simple_paths g ancestor_node descendant_node of
        Inl e \<Rightarrow> Raised e g
      | Inr paths \<Rightarrow>
          (if length paths \<le> 1 then Returned g
           else case best_of g None (-1) (-1) paths of
                  Inl e \<Rightarrow> Raised e g
                | Inr best_path \<Rightarrow> Returned (remove_other_paths best_path paths g)))"

section \<open>simplify_bubbles\<close>

text \<open>\<open>for predecessor in predecessors: if predecessor != lca: graph = solve_bubble(graph,
  predecessor, node)\<close>.\<close>

fun solve_predecessors :: "'a DiGraph \<Rightarrow> 'a \<Rightarrow> 'a \<Rightarrow> 'a list \<Rightarrow> 'a DiGraph outcome" where
  "solve_predecessors g lca node [] = Returned g"
| "solve_predecessors g lca node (predecessor # rest) =
     (if predecessor \<noteq> lca
      then (case solve_bubble g predecessor node of
              Raised e g' \<Rightarrow> Raised e g'
            | Returned g' \<Rightarrow> solve_predecessors g' lca node rest)
      else solve_predecessors g lca node rest)"

text \<open>The body of the loop over the nodes, for one node: the state is the graph after it
  together with the nodes that this iteration marks.\<close>

definition bubble_step ::
  "('a list \<Rightarrow> 'a) \<Rightarrow> 'a DiGraph \<Rightarrow> 'a \<Rightarrow> ('a DiGraph \<times> 'a list) outcome" where
  "bubble_step pick g node =
     (let preds = predecessors g node in
      if length preds > 1
      then (case lca_of_predecessors pick g preds of
              Inl e \<Rightarrow> Raised e (g, [])
            | Inr None \<Rightarrow> Returned (g, [])
            | Inr (Some lca) \<Rightarrow>
                (case solve_predecessors g lca node preds of
                   Raised e g' \<Rightarrow> Raised e (g', [])
                 | Returned g' \<Rightarrow>
                     (case all_simple_paths g' lca node of
                        Inl e \<Rightarrow> Raised e (g', [])
                      | Inr paths \<Rightarrow>
                          (if paths = [] then Returned (g', [])
                           else case path_weights g' paths of
                                  Inl e \<Rightarrow> Raised e (g', [])
                                | Inr ws \<Rightarrow>
                                    Returned (g', marks_of paths (heaviest_path paths ws))))))
      else Returned (g, []))"

text \<open>
  The loop \<open>for node in graph.nodes()\<close> runs over the dictionary of the nodes itself. Each
  time it asks for the next node, also when none is left, Python compares the size of the
  dictionary with the size it had when the loop began and raises \<open>RuntimeError\<close> when a node
  was removed meanwhile. \<open>size0\<close> is the number of nodes at the start of the loop.
\<close>

fun bubbles_loop ::
  "('a list \<Rightarrow> 'a) \<Rightarrow> nat \<Rightarrow> 'a DiGraph \<Rightarrow> 'a list \<Rightarrow> 'a list
     \<Rightarrow> ('a DiGraph \<times> 'a list) outcome" where
  "bubbles_loop pick size0 g nodes_to_remove [] =
     (if length (nodes g) \<noteq> size0 then Raised RuntimeError (g, nodes_to_remove)
      else Returned (g, nodes_to_remove))"
| "bubbles_loop pick size0 g nodes_to_remove (node # rest) =
     (if length (nodes g) \<noteq> size0 then Raised RuntimeError (g, nodes_to_remove)
      else case bubble_step pick g node of
             Raised e (g', ms) \<Rightarrow> Raised e (g', nodes_to_remove @ ms)
           | Returned (g', ms) \<Rightarrow> bubbles_loop pick size0 g' (nodes_to_remove @ ms) rest)"

definition simplify_bubbles :: "('a list \<Rightarrow> 'a) \<Rightarrow> 'a DiGraph \<Rightarrow> 'a DiGraph outcome" where
  "simplify_bubbles pick g =
     (case bubbles_loop pick (length (nodes g)) g [] (nodes g) of
        Raised e (g', nodes_to_remove) \<Rightarrow> Raised e g'
      | Returned (g', nodes_to_remove) \<Rightarrow> Returned (remove_nodes_from nodes_to_remove g'))"

section \<open>Building the graph\<close>

text \<open>\<open>cut_kmer\<close>: the slices \<open>read[i:i+kmer_size]\<close> for \<open>i\<close> in
  \<open>range(len(read) - kmer_size + 1)\<close>.\<close>

definition cut_kmer :: "string \<Rightarrow> nat \<Rightarrow> string list" where
  "cut_kmer read kmer_size =
     map (\<lambda>i. take kmer_size (drop i read)) [0 ..< length read + 1 - kmer_size]"

text \<open>The dictionary of the k-mer counts keeps its keys in the order of their first
  occurrence; it is an association list.\<close>

fun count_kmer :: "(string \<times> int) list \<Rightarrow> string \<Rightarrow> (string \<times> int) list" where
  "count_kmer [] kmer = [(kmer, 1)]"
| "count_kmer ((k, c) # rest) kmer =
     (if k = kmer then (k, c + 1) # rest else (k, c) # count_kmer rest kmer)"

text \<open>\<open>build_kmer_dict\<close> reads the file through \<open>read_fastq\<close>; the model takes the reads that
  \<open>read_fastq\<close> yields.\<close>

definition build_kmer_dict :: "string list \<Rightarrow> nat \<Rightarrow> (string \<times> int) list" where
  "build_kmer_dict reads kmer_size =
     fold (\<lambda>read kmer_dict. fold (\<lambda>kmer d. count_kmer d kmer) (cut_kmer read kmer_size) kmer_dict)
       reads []"

definition build_graph :: "(string \<times> int) list \<Rightarrow> string DiGraph" where
  "build_graph kmer_dict =
     fold (\<lambda>(kmer, weight) graph. add_edge (butlast kmer) (tl kmer) weight graph)
       kmer_dict empty_graph"

section \<open>get_contigs\<close>

text \<open>\<open>contig = path[0]\<close>, then \<open>contig += node[-1]\<close> for every later node; \<open>node[-1]\<close> raises
  \<open>IndexError\<close> on an empty string.\<close>

fun append_last_chars :: "string \<Rightarrow> string list \<Rightarrow> error + string" where
  "append_last_chars contig [] = Inr contig"
| "append_last_chars contig (node # rest) =
     (if node = [] then Inl IndexError else append_last_chars (contig @ [last node]) rest)"

definition contig_of_path :: "string list \<Rightarrow> error + string" where
  "contig_of_path path =
     (case path of [] \<Rightarrow> Inl IndexError | first # rest \<Rightarrow> append_last_chars first rest)"

fun contigs_of_paths :: "(string \<times> nat) list \<Rightarrow> string list list
                           \<Rightarrow> error + (string \<times> nat) list" where
  "contigs_of_paths contigs [] = Inr contigs"
| "contigs_of_paths contigs (path # rest) =
     (case contig_of_path path of
        Inl e \<Rightarrow> Inl e
      | Inr contig \<Rightarrow> contigs_of_paths (contigs @ [(contig, length contig)]) rest)"

fun contigs_from :: "string DiGraph \<Rightarrow> (string \<times> nat) list \<Rightarrow> string \<Rightarrow> string list
                       \<Rightarrow> error + (string \<times> nat) list" where
  "contigs_from g contigs start [] = Inr contigs"
| "contigs_from g contigs start (end # rest) =
     (case has_path g start end of
        Inl e \<Rightarrow> Inl e
      | Inr False \<Rightarrow> contigs_from g contigs start rest
      | Inr True \<Rightarrow>
          (case all_simple_paths g start end of
             Inl e \<Rightarrow> Inl e
           | Inr paths \<Rightarrow>
               (case contigs_of_paths contigs paths of
                  Inl e \<Rightarrow> Inl e
                | Inr contigs' \<Rightarrow> contigs_from g contigs' start rest)))"

fun contigs_loop :: "string DiGraph \<Rightarrow> (string \<times> nat) list \<Rightarrow> string list \<Rightarrow> string list
                       \<Rightarrow> error + (string \<times> nat) list" where
  "contigs_loop g contigs [] ending_nodes = Inr contigs"
| "contigs_loop g contigs (start # rest) ending_nodes =
     (case contigs_from g contigs start ending_nodes of
        Inl e \<Rightarrow> Inl e
      | Inr contigs' \<Rightarrow> contigs_loop g contigs' rest ending_nodes)"

definition get_contigs :: "string DiGraph \<Rightarrow> string list \<Rightarrow> string list
                             \<Rightarrow> error + (string \<times> nat) list" where
  "get_contigs g starting_nodes ending_nodes = contigs_loop g [] starting_nodes ending_nodes"

text \<open>Assembling the reads without simplification: dictionary, graph, contigs between the
  sources and the sinks of the graph.\<close>

definition assemble :: "string list \<Rightarrow> nat \<Rightarrow> error + (string \<times> nat) list" where
  "assemble reads kmer_size =
     (let g = build_graph (build_kmer_dict reads kmer_size)
      in get_contigs g (get_starting_nodes g) (get_sink_nodes g))"

section \<open>Sequences of simplification calls\<close>

datatype 'a call =
    SimplifyBubbles
  | SolveEntryTips "'a list"
  | SolveOutTips "'a list"
  | RemovePaths "'a list list" bool bool

fun run_call :: "('a list \<Rightarrow> 'a) \<Rightarrow> 'a call \<Rightarrow> 'a DiGraph \<Rightarrow> 'a DiGraph outcome" where
  "run_call pick SimplifyBubbles g = simplify_bubbles pick g"
| "run_call pick (SolveEntryTips starting_nodes) g = solve_entry_tips g starting_nodes"
| "run_call pick (SolveOutTips ending_nodes) g = Returned (snd (solve_out_tips g ending_nodes))"
| "run_call pick (RemovePaths path_list den dsn) g = remove_paths g path_list den dsn"

text \<open>A sequence of calls on the same graph object stops at the first exception.\<close>

fun run_calls :: "('a list \<Rightarrow> 'a) \<Rightarrow> 'a call list \<Rightarrow> 'a DiGraph \<Rightarrow> 'a DiGraph outcome" where
  "run_calls pick [] g = Returned g"
| "run_calls pick (c # cs) g =
     (case run_call pick c g of
        Raised e g' \<Rightarrow> Raised e g'
      | Returned g' \<Rightarrow> run_calls pick cs g')"

text \<open>\<open>g'\<close> has no node and no weighted edge that \<open>g\<close> has not.\<close>

definition subgraph_of :: "'a DiGraph \<Rightarrow> 'a DiGraph \<Rightarrow> bool" where
  "subgraph_of g' g = (set (nodes g') \<subseteq> set (nodes g) \<and> set (edges g') \<subseteq> set (edges g))"

section \<open>Chains\<close>

text \<open>The graph of a read without a repeated node: the nodes in the order of the read,
  and an edge of weight 1 from each node to the next.\<close>

definition chain_edges :: "'a list \<Rightarrow> ('a \<times> 'a \<times> int) list" where
  "chain_edges xs = map (\<lambda>uv. (fst uv, snd uv, 1)) (consecutive_pairs xs)"

definition chain_graph :: "'a list \<Rightarrow> 'a DiGraph" where
  "chain_graph xs = \<lparr>nodes = xs, edges = chain_edges xs\<rparr>"

text \<open>The words of the specification for the sequence of a path: the full string of the
  first node followed by the last character of every later node.\<close>

definition spelled :: "string list \<Rightarrow> string" where
  "spelled path = hd path @ map last (tl path)"

section \<open>Example graphs\<close>

text \<open>Two paths from \<open>A\<close> to \<open>D\<close> of equal average weight 1, the shorter one entered first.\<close>

definition tie_graph :: "string DiGraph" where
  "tie_graph =
     add_edge ''C2'' ''D'' 1 (add_edge ''C1'' ''C2'' 1 (add_edge ''A'' ''C1'' 1
       (add_edge ''B'' ''D'' 1 (add_edge ''A'' ''B'' 1 empty_graph))))"

text \<open>\<open>D\<close> has the three predecessors \<open>P1\<close>, \<open>P2\<close>, \<open>P3\<close>; \<open>A\<close> is above \<open>P1\<close> and \<open>P2\<close>, \<open>B\<close> is
  above \<open>P2\<close> and \<open>P3\<close>.\<close>

definition three_way_graph :: "string DiGraph" where
  "three_way_graph =
     add_edge ''P3'' ''D'' 1 (add_edge ''B'' ''P3'' 1 (add_edge ''B'' ''P2'' 1
       (add_edge ''P2'' ''D'' 5 (add_edge ''A'' ''P2'' 5
         (add_edge ''P1'' ''D'' 1 (add_edge ''A'' ''P1'' 1 empty_graph))))))"

text \<open>\<open>D\<close> has four predecessors, all of them successors of \<open>A\<close>.\<close>

definition four_way_graph :: "string DiGraph" where
  "four_way_graph =
     add_edge ''P4'' ''D'' 1 (add_edge ''A'' ''P4'' 1
       (add_edge ''P3'' ''D'' 1 (add_edge ''A'' ''P3'' 1
         (add_edge ''P2'' ''D'' 5 (add_edge ''A'' ''P2'' 5
           (add_edge ''P1'' ''D'' 1 (add_edge ''A'' ''P1'' 1 empty_graph)))))))"

text \<open>The path \<open>A \<rightarrow> B \<rightarrow> C\<close> with edges of weight 1 and the chord \<open>A \<rightarrow> C\<close> of weight 10.\<close>

definition chord_graph :: "string DiGraph" where
  "chord_graph =
     add_edge ''A'' ''C'' 10 (add_edge ''B'' ''C'' 1 (add_edge ''A'' ''B'' 1 empty_graph))"

text \<open>The graph of the single k-mer \<open>AAA\<close>: the node \<open>AA\<close> with a loop of weight 5.\<close>

definition loop_graph :: "string DiGraph" where
  "loop_graph = add_edge ''AA'' ''AA'' 5 empty_graph"

text \<open>A graph with the cycle \<open>A \<rightarrow> B \<rightarrow> C \<rightarrow> A\<close> and the exit \<open>B \<rightarrow> D\<close>.\<close>

definition cycle_graph :: "string DiGraph" where
  "cycle_graph =
     add_edge ''B'' ''D'' 1 (add_edge ''C'' ''A'' 1 (add_edge ''B'' ''C'' 1
       (add_edge ''A'' ''B'' 1 empty_graph)))"



section \<open>Short paths in remove_paths\<close>

text \<open>
  C10. A path of fewer than 2 nodes in the list given to \<open>remove_paths\<close> is skipped: whatever
  the two deletion flags are, it causes no removal, so the call does what it does on the
  list without these paths, and a list made of such paths only (a single-node path with
  both flags true included) leaves every node and edge of the graph in place.
\<close>

theorem remove_paths_skips_short_paths:
  "remove_paths g ps den dsn = remove_paths g (filter (\<lambda>p. \<not> length p < 2) ps) den dsn
   \<and> ((\<forall>p \<in> set ps. length p < 2) \<longrightarrow> remove_paths g ps den dsn = Returned g)"
proof
  show "remove_paths g ps den dsn = remove_paths g (filter (\<lambda>p. \<not> length p < 2) ps) den dsn"
    by (induction ps arbitrary: g) (auto split: outcome.splits)
next
  show "(\<forall>p \<in> set ps. length p < 2) \<longrightarrow> remove_paths g ps den dsn = Returned g"
    by (induction ps) auto
qed

theorem remove_paths_skips_short_paths_witness:
  "length [''B''] < 2 \<and> length ([] :: string list) < 2
   \<and> remove_paths out_tip_graph [[''B''], []] True True = Returned out_tip_graph"
  using remove_paths_skips_short_paths [of out_tip_graph "[[''B''], []]" True True]
  by simp

text \<open>
  C3. Exit-tip removal is required for every sink whose single predecessor has more than
  one successor. In \<open>out_tip_graph\<close> the sinks \<open>C\<close> and \<open>D\<close> both hang off \<open>B\<close>, which has two
  successors, so the lighter branch to \<open>D\<close> should go; \<open>solve_out_tips\<close> returns \<open>None\<close> and
  the graph keeps all four nodes and all three edges.
\<close>

theorem solve_out_tips_does_nothing:
  "get_sink_nodes out_tip_graph = [''C'', ''D'']
   \<and> predecessors out_tip_graph ''D'' = [''B'']
   \<and> successors out_tip_graph ''B'' = [''C'', ''D'']
   \<and> solve_out_tips out_tip_graph (get_sink_nodes out_tip_graph) = (None, out_tip_graph)
   \<and> nodes out_tip_graph = [''A'', ''B'', ''C'', ''D'']"
  by (simp add: solve_out_tips_def get_sink_nodes_def out_degree_def successors_def
      predecessors_def out_tip_graph_def add_edge_def add_node_def empty_graph_def)

section \<open>Entry tips\<close>

lemma remove_nodes_from_Nil: "remove_nodes_from [] g = g"
  by (simp add: remove_nodes_from_def)

lemma explore_single_successor:
  "successors g node = [t] \<Longrightarrow> length (explore g t c [] [node]) \<le> 1"
  by (cases "node = t") auto

lemma path_weights_length: "path_weights g ps = Inr ws \<Longrightarrow> length ws = length ps"
  by (induction ps arbitrary: ws) (auto split: sum.splits)

lemma marks_of_single:
  "length paths \<le> 1 \<Longrightarrow> length ws = length paths \<Longrightarrow>
   marks_of paths (heaviest_path paths ws) = []"
  by (cases paths; cases ws) (auto simp: marks_of_def heaviest_path_def)

text \<open>A source with a single successor has a single simple path to it, so no iteration
  of \<open>solve_entry_tips\<close> marks a node.\<close>

lemma entry_tip_marks_Nil: "entry_tip_marks g node = Inr ms \<Longrightarrow> ms = []"
  unfolding entry_tip_marks_def all_simple_paths_def
  by (auto split: if_splits list.splits sum.splits
      dest!: path_weights_length simp: marks_of_single explore_single_successor)

lemma entry_tips_loop_Nil: "entry_tips_loop g acc ns = Inr ms \<Longrightarrow> ms = acc"
  by (induction ns arbitrary: acc) (auto split: sum.splits dest: entry_tip_marks_Nil)

lemma solve_entry_tips_unchanged: "state_of (solve_entry_tips g ns) = g"
  unfolding solve_entry_tips_def
  by (auto split: sum.splits dest: entry_tips_loop_Nil simp: remove_nodes_from_Nil)

text \<open>
  C5. In \<open>entry_tip_graph\<close> the source \<open>T\<close> has out-degree 1 and feeds \<open>C\<close>, whose in-degree is
  2; its path \<open>T \<rightarrow> C\<close> weighs 1 on average, the competing path \<open>M1 \<rightarrow> M2 \<rightarrow> C\<close> weighs 10.
  The tip \<open>T\<close> should be removed; \<open>solve_entry_tips\<close> returns the graph as it was, \<open>T\<close>
  included.
\<close>

theorem solve_entry_tips_keeps_the_tip:
  "get_starting_nodes entry_tip_graph = [''M1'', ''T'']
   \<and> successors entry_tip_graph ''T'' = [''C'']
   \<and> predecessors entry_tip_graph ''C'' = [''M2'', ''T'']
   \<and> path_average_weight entry_tip_graph [''T'', ''C''] = Inr 1
   \<and> path_average_weight entry_tip_graph [''M1'', ''M2'', ''C''] = Inr 10
   \<and> solve_entry_tips entry_tip_graph (get_starting_nodes entry_tip_graph) =
       Returned entry_tip_graph
   \<and> ''T'' \<in> set (nodes entry_tip_graph)"
  by code_simp

section \<open>Bubbles\<close>

text \<open>
  C2. The closest common ancestor of all the predecessors of a convergence node is to be
  found. In \<open>four_way_graph\<close> the node \<open>D\<close> has the four predecessors \<open>P1\<close> to \<open>P4\<close>, whose closest
  common ancestor is \<open>A\<close>; \<open>simplify_bubbles\<close> hands the four of them to a function of two
  nodes and stops with \<open>TypeError\<close>. In \<open>three_way_graph\<close> the third predecessor \<open>P3\<close> of \<open>D\<close> is
  taken for the default value: the ancestor used is \<open>A\<close>, which is no ancestor of \<open>P3\<close>, and
  the pass leaves the two paths from \<open>B\<close> to \<open>D\<close> in place.
\<close>

theorem simplify_bubbles_many_predecessors:
  "predecessors four_way_graph ''D'' = [''P1'', ''P2'', ''P3'', ''P4'']
   \<and> list_all (\<lambda>p. ''A'' \<in> set (ancestors_and_self four_way_graph p))
        [''P1'', ''P2'', ''P3'', ''P4'']
   \<and> is_directed_acyclic_graph four_way_graph
   \<and> simplify_bubbles hd four_way_graph = Raised TypeError four_way_graph
   \<and> predecessors three_way_graph ''D'' = [''P1'', ''P2'', ''P3'']
   \<and> lca_of_predecessors hd three_way_graph [''P1'', ''P2'', ''P3''] = Inr (Some ''A'')
   \<and> ''A'' \<notin> set (ancestors_and_self three_way_graph ''P3'')
   \<and> simplify_bubbles hd three_way_graph =
       Returned \<lparr>nodes = [''A'', ''D'', ''P2'', ''B'', ''P3''],
                 edges = [(''A'', ''P2'', 5), (''P2'', ''D'', 5), (''B'', ''P2'', 1),
                          (''B'', ''P3'', 1), (''P3'', ''D'', 1)]\<rparr>"
  by code_simp

text \<open>
  C4. On an exact tie of the average weights the longer path is to win. In \<open>tie_graph\<close> the
  two paths from \<open>A\<close> to \<open>D\<close> both weigh 1 on average; \<open>simplify_bubbles\<close> keeps the first one
  enumerated, the path of 3 nodes, and removes the interior \<open>C1\<close>, \<open>C2\<close> of the path of 4
  nodes.
\<close>

theorem simplify_bubbles_tie_keeps_shorter:
  "all_simple_paths tie_graph ''A'' ''D'' =
     Inr [[''A'', ''B'', ''D''], [''A'', ''C1'', ''C2'', ''D'']]
   \<and> path_average_weight tie_graph [''A'', ''B'', ''D''] = Inr 1
   \<and> path_average_weight tie_graph [''A'', ''C1'', ''C2'', ''D''] = Inr 1
   \<and> simplify_bubbles hd tie_graph =
       Returned \<lparr>nodes = [''A'', ''B'', ''D''],
                 edges = [(''A'', ''B'', 1), (''B'', ''D'', 1)]\<rparr>"
  by code_simp






section \<open>Simplification only removes\<close>

lemma subgraph_of_refl: "subgraph_of g g"
  by (simp add: subgraph_of_def)

lemma subgraph_of_trans: "subgraph_of g2 g1 \<Longrightarrow> subgraph_of g1 g \<Longrightarrow> subgraph_of g2 g"
  by (auto simp: subgraph_of_def)

lemma remove_nodes_from_subgraph: "subgraph_of (remove_nodes_from ns g) g"
  by (auto simp: subgraph_of_def remove_nodes_from_def)

lemma remove_node_subgraph: "subgraph_of (state_of (remove_node n g)) g"
  by (simp add: remove_node_def remove_nodes_from_subgraph subgraph_of_refl)

lemma remove_each_subgraph: "subgraph_of (state_of (remove_each ns g)) g"
proof (induction ns arbitrary: g)
  case Nil
  show ?case by (simp add: subgraph_of_refl)
next
  case (Cons n ns)
  show ?case
  proof (cases "remove_node n g")
    case (Returned g1)
    with remove_node_subgraph [of n g] have "subgraph_of g1 g" by simp
    with Cons.IH [of g1] Returned show ?thesis
      by (auto intro: subgraph_of_trans)
  next
    case (Raised e g1)
    with remove_node_subgraph [of n g] show ?thesis by simp
  qed
qed

lemma remove_paths_subgraph: "subgraph_of (state_of (remove_paths g ps den dsn)) g"
proof (induction ps arbitrary: g)
  case Nil
  show ?case by (simp add: subgraph_of_refl)
next
  case (Cons p ps)
  show ?case
  proof (cases "length p < 2")
    case True
    with Cons.IH [of g] show ?thesis by simp
  next
    case False
    let ?r = "remove_each (slice p (if den then 0 else 1)
                (if dsn then length p else length p - 1)) g"
    have sub: "subgraph_of (state_of ?r) g" by (rule remove_each_subgraph)
    show ?thesis
    proof (cases ?r)
      case (Returned g1)
      with sub have "subgraph_of g1 g" by simp
      with Cons.IH [of g1] Returned False show ?thesis
        by (auto simp: Let_def intro: subgraph_of_trans)
    next
      case (Raised e g1)
      with sub False show ?thesis by (simp add: Let_def)
    qed
  qed
qed

lemma remove_other_paths_subgraph: "subgraph_of (remove_other_paths best ps g) g"
proof (induction ps arbitrary: g)
  case Nil
  show ?case by (simp add: subgraph_of_refl)
next
  case (Cons p ps)
  show ?case
    using Cons.IH [of "remove_nodes_from (interior p) g"] Cons.IH [of g]
    by (auto intro: subgraph_of_trans remove_nodes_from_subgraph)
qed

lemma solve_bubble_subgraph: "subgraph_of (state_of (solve_bubble g a d)) g"
  unfolding solve_bubble_def
  by (auto split: sum.splits simp: subgraph_of_refl remove_other_paths_subgraph)

lemma solve_predecessors_subgraph:
  "subgraph_of (state_of (solve_predecessors g lca node ps)) g"
proof (induction ps arbitrary: g)
  case Nil
  show ?case by (simp add: subgraph_of_refl)
next
  case (Cons p ps)
  show ?case
  proof (cases "p = lca")
    case True
    with Cons.IH [of g] show ?thesis by simp
  next
    case False
    have sub: "subgraph_of (state_of (solve_bubble g p node)) g"
      by (rule solve_bubble_subgraph)
    show ?thesis
    proof (cases "solve_bubble g p node")
      case (Returned g1)
      with sub have "subgraph_of g1 g" by simp
      with Cons.IH [of g1] Returned False show ?thesis
        by (auto intro: subgraph_of_trans)
    next
      case (Raised e g1)
      with sub False show ?thesis by simp
    qed
  qed
qed

lemma solve_predecessors_Returned:
  "solve_predecessors g lca node ps = Returned g1 \<Longrightarrow> subgraph_of g1 g"
  using solve_predecessors_subgraph [of g lca node ps] by simp

lemma solve_predecessors_Raised:
  "solve_predecessors g lca node ps = Raised e g1 \<Longrightarrow> subgraph_of g1 g"
  using solve_predecessors_subgraph [of g lca node ps] by simp

lemma bubble_step_subgraph: "subgraph_of (fst (state_of (bubble_step pick g node))) g"
  unfolding bubble_step_def Let_def
  by (auto split: sum.splits option.splits outcome.splits simp: subgraph_of_refl
      dest: solve_predecessors_Returned solve_predecessors_Raised)

lemma bubbles_loop_subgraph:
  "subgraph_of (fst (state_of (bubbles_loop pick n0 g acc ns))) g"
proof (induction ns arbitrary: g acc)
  case Nil
  show ?case by (simp add: subgraph_of_refl)
next
  case (Cons n ns)
  have sub: "subgraph_of (fst (state_of (bubble_step pick g n))) g"
    by (rule bubble_step_subgraph)
  show ?case
  proof (cases "length (nodes g) \<noteq> n0")
    case True
    then show ?thesis by (simp add: subgraph_of_refl)
  next
    case False
    show ?thesis
    proof (cases "bubble_step pick g n")
      case (Returned st)
      obtain g1 m1 where st: "st = (g1, m1)" by (cases st)
      with sub Returned have "subgraph_of g1 g" by simp
      with Cons.IH [of g1 "acc @ m1"] Returned st False show ?thesis
        by (auto intro: subgraph_of_trans)
    next
      case (Raised e st)
      obtain g1 m1 where st: "st = (g1, m1)" by (cases st)
      with sub Raised False show ?thesis by simp
    qed
  qed
qed

lemma simplify_bubbles_subgraph: "subgraph_of (state_of (simplify_bubbles pick g)) g"
proof -
  have sub: "subgraph_of (fst (state_of (bubbles_loop pick (length (nodes g)) g [] (nodes g)))) g"
    by (rule bubbles_loop_subgraph)
  show ?thesis
  proof (cases "bubbles_loop pick (length (nodes g)) g [] (nodes g)")
    case (Returned st)
    obtain g1 m1 where st: "st = (g1, m1)" by (cases st)
    with sub Returned have "subgraph_of g1 g" by simp
    with Returned st show ?thesis
      by (auto simp: simplify_bubbles_def
          intro: subgraph_of_trans [OF remove_nodes_from_subgraph])
  next
    case (Raised e st)
    obtain g1 m1 where st: "st = (g1, m1)" by (cases st)
    with sub Raised show ?thesis by (simp add: simplify_bubbles_def)
  qed
qed

lemma run_call_subgraph: "subgraph_of (state_of (run_call pick c g)) g"
  by (cases c)
    (simp_all add: solve_out_tips_def subgraph_of_refl simplify_bubbles_subgraph
      solve_entry_tips_unchanged remove_paths_subgraph)

text \<open>
  C9. Whatever the sequence of calls of \<open>simplify_bubbles\<close>, \<open>solve_entry_tips\<close>,
  \<open>solve_out_tips\<close> and \<open>remove_paths\<close>, and whether it runs to its end or stops with an
  exception, the graph it leaves has no node and no edge that the graph it was given had
  not, and an edge that is still there has the weight it had: edges are compared with
  their weights.
\<close>

theorem simplification_only_removes:
  "set (nodes (state_of (run_calls pick cs g))) \<subseteq> set (nodes g)
   \<and> set (edges (state_of (run_calls pick cs g))) \<subseteq> set (edges g)"
proof -
  have "subgraph_of (state_of (run_calls pick cs g)) g"
  proof (induction cs arbitrary: g)
    case Nil
    show ?case by (simp add: subgraph_of_refl)
  next
    case (Cons c cs)
    have sub: "subgraph_of (state_of (run_call pick c g)) g" by (rule run_call_subgraph)
    show ?case
    proof (cases "run_call pick c g")
      case (Returned g1)
      with sub have "subgraph_of g1 g" by simp
      with Cons.IH [of g1] Returned show ?thesis
        by (auto intro: subgraph_of_trans)
    next
      case (Raised e g1)
      with sub show ?thesis by simp
    qed
  qed
  then show ?thesis by (simp add: subgraph_of_def)
qed

theorem simplification_only_removes_witness:
  "run_calls hd [SimplifyBubbles, SolveEntryTips [''A'', ''B''], SolveOutTips [''D''],
       RemovePaths [[''A'', ''P2'', ''D'']] False False, SimplifyBubbles] three_way_graph =
     Returned \<lparr>nodes = [''A'', ''D'', ''B'', ''P3''],
               edges = [(''B'', ''P3'', 1), (''P3'', ''D'', 1)]\<rparr>
   \<and> set [''A'', ''D'', ''B'', ''P3''] \<subseteq> set (nodes three_way_graph)
   \<and> set [(''B'', ''P3'', 1), (''P3'', ''D'', 1)] \<subseteq> set (edges three_way_graph)"
proof -
  have h: "run_calls hd [SimplifyBubbles, SolveEntryTips [''A'', ''B''], SolveOutTips [''D''],
       RemovePaths [[''A'', ''P2'', ''D'']] False False, SimplifyBubbles] three_way_graph =
     Returned \<lparr>nodes = [''A'', ''D'', ''B'', ''P3''],
               edges = [(''B'', ''P3'', 1), (''P3'', ''D'', 1)]\<rparr>"
    by code_simp
  from simplification_only_removes [of hd "[SimplifyBubbles, SolveEntryTips [''A'', ''B''],
       SolveOutTips [''D''], RemovePaths [[''A'', ''P2'', ''D'']] False False,
       SimplifyBubbles]" three_way_graph] h
  show ?thesis by simp
qed

section \<open>Enumeration of simple paths\<close>

lemma consecutive_pairs_snoc:
  "consecutive_pairs (path @ [n]) =
     (if path = [] then [] else consecutive_pairs path @ [(last path, n)])"
proof (induction path)
  case Nil
  show ?case by (simp add: consecutive_pairs_def)
next
  case (Cons x xs)
  then show ?case by (cases xs) (auto simp: consecutive_pairs_def)
qed

lemma is_path_snoc:
  "is_path g (path @ [n]) = (is_path g path \<and> (path = [] \<or> is_edge g (last path, n)))"
proof (cases "path = []")
  case True
  then show ?thesis by (simp add: is_path_def consecutive_pairs_def)
next
  case False
  then show ?thesis by (simp add: is_path_def consecutive_pairs_snoc)
qed

lemma successor_is_edge: "n \<in> set (successors g u) \<Longrightarrow> is_edge g (u, n)"
  by (force simp: successors_def is_edge_def)

lemma explore_sound:
  "p \<in> set (explore g t c path cands) \<Longrightarrow> distinct path \<Longrightarrow> is_path g path \<Longrightarrow>
   length path \<le> c \<Longrightarrow> path = [] \<or> set cands \<subseteq> set (successors g (last path)) \<Longrightarrow>
   \<exists>q. p = path @ q \<and> q \<noteq> [] \<and> hd q \<in> set cands \<and> distinct p \<and> last p = t
       \<and> is_path g p \<and> length p \<le> Suc c"
proof (induction g t c path cands rule: explore.induct)
  case (1 g target cutoff path)
  then show ?case by simp
next
  case (2 g target cutoff path n rest)
  show ?case
  proof (cases "n \<in> set path")
    case True
    with "2.prems" have "p \<in> set (explore g target cutoff path rest)" by simp
    from "2.IH"(1) [OF True this "2.prems"(2,3,4)] "2.prems"(5) show ?thesis by auto
  next
    case False
    let ?go = "length path < cutoff \<and> target \<notin> set path \<and> n \<noteq> target"
    from "2.prems"(1) False consider
        (yield) "n = target" "p = path @ [n]"
      | (deeper) "?go" "p \<in> set (explore g target cutoff (path @ [n]) (successors g n))"
      | (later) "p \<in> set (explore g target cutoff path rest)"
      by (auto split: if_splits)
    then show ?thesis
    proof cases
      case yield
      have "is_path g (path @ [n])"
        using "2.prems"(3,5) by (auto simp: is_path_snoc intro: successor_is_edge)
      with yield False "2.prems"(2,4) show ?thesis by auto
    next
      case deeper
      have d: "distinct (path @ [n])" using False "2.prems"(2) by simp
      have ip: "is_path g (path @ [n])"
        using "2.prems"(3,5) by (auto simp: is_path_snoc intro: successor_is_edge)
      have l: "length (path @ [n]) \<le> cutoff" using deeper(1) by simp
      have s: "path @ [n] = [] \<or> set (successors g n) \<subseteq> set (successors g (last (path @ [n])))"
        by simp
      from "2.IH"(2) [OF False deeper(1) deeper(2) d ip l s]
      obtain q where q: "p = (path @ [n]) @ q" "distinct p" "last p = target" "is_path g p"
        "length p \<le> Suc cutoff" by blast
      then have "p = path @ (n # q)" by simp
      with q show ?thesis by (intro exI [of _ "n # q"]) simp
    next
      case later
      from "2.IH"(3) [OF False later "2.prems"(2,3,4)] "2.prems"(5) show ?thesis by auto
    qed
  qed
qed

lemma all_simple_paths_sound:
  assumes "all_simple_paths g source target = Inr paths" and "p \<in> set paths"
  shows "distinct p \<and> p \<noteq> [] \<and> hd p = source \<and> last p = target \<and> is_path g p
         \<and> length p \<le> length (nodes g)"
proof -
  from assms have src: "source \<in> set (nodes g)"
    and p: "p \<in> set (explore g target (length (nodes g) - 1) [] [source])"
    by (auto simp: all_simple_paths_def split: if_splits)
  from src have ne: "nodes g \<noteq> []" by auto
  have "is_path g []" by (simp add: is_path_def consecutive_pairs_def)
  from explore_sound [OF p _ this] ne show ?thesis
    by (auto simp: Suc_pred)
qed

text \<open>
  C8. The enumeration of the simple paths between two nodes ends on every graph, with or
  without cycles: \<open>explore\<close> is a total function (its termination is proved with its
  definition, every deeper call lengthens a path that the cutoff bounds), so for any two
  nodes of any graph \<open>all_simple_paths\<close> returns a list, and each path in it starts at the
  source, ends at the target, follows edges of the graph, repeats no node and has at most
  as many nodes as the graph.
\<close>

theorem all_simple_paths_terminates:
  "source \<in> set (nodes g) \<Longrightarrow> target \<in> set (nodes g) \<Longrightarrow>
   \<exists>paths. all_simple_paths g source target = Inr paths
     \<and> (\<forall>p \<in> set paths. distinct p \<and> hd p = source \<and> last p = target \<and> is_path g p
           \<and> length p \<le> length (nodes g))"
proof -
  assume n: "source \<in> set (nodes g)" "target \<in> set (nodes g)"
  then obtain paths where r: "all_simple_paths g source target = Inr paths"
    by (simp add: all_simple_paths_def)
  with all_simple_paths_sound [OF r] show ?thesis by blast
qed

theorem all_simple_paths_terminates_witness:
  "''A'' \<in> set (nodes cycle_graph) \<and> ''D'' \<in> set (nodes cycle_graph)
   \<and> \<not> is_directed_acyclic_graph cycle_graph
   \<and> all_simple_paths cycle_graph ''A'' ''D'' = Inr [[''A'', ''B'', ''D'']]
   \<and> (\<exists>paths. all_simple_paths cycle_graph ''A'' ''D'' = Inr paths
        \<and> (\<forall>p \<in> set paths. distinct p \<and> hd p = ''A'' \<and> last p = ''D''
              \<and> is_path cycle_graph p \<and> length p \<le> length (nodes cycle_graph)))"
proof -
  have h: "''A'' \<in> set (nodes cycle_graph)" "''D'' \<in> set (nodes cycle_graph)"
    by code_simp+
  have c: "\<not> is_directed_acyclic_graph cycle_graph"
    by code_simp
  have v: "all_simple_paths cycle_graph ''A'' ''D'' = Inr [[''A'', ''B'', ''D'']]"
    by code_simp
  from all_simple_paths_terminates [OF h] h c v show ?thesis by blast
qed

section \<open>The weight of a path\<close>

text \<open>
  C6. The weight of a path is to be the mean of the weights of the edges between its
  consecutive nodes, and to fail on a path of fewer than 2 nodes. \<open>path_average_weight\<close>
  averages the edges of the subgraph induced by the nodes of the path. On \<open>chord_graph\<close> the
  path \<open>A \<rightarrow> B \<rightarrow> C\<close>, which \<open>all_simple_paths\<close> enumerates, has two edges of weight 1, mean 1, and
  the function returns 4, the chord \<open>A \<rightarrow> C\<close> of weight 10 counted with them; on \<open>loop_graph\<close> the
  path of the single node \<open>AA\<close> does not fail, it weighs 5.
\<close>

theorem path_average_weight_counts_chords:
  "all_simple_paths chord_graph ''A'' ''C'' = Inr [[''A'', ''B'', ''C''], [''A'', ''C'']]
   \<and> is_path chord_graph [''A'', ''B'', ''C''] \<and> distinct [''A'', ''B'', ''C'']
   \<and> subgraph_edges chord_graph [''A'', ''B'', ''C''] =
       [(''A'', ''B'', 1), (''B'', ''C'', 1), (''A'', ''C'', 10)]
   \<and> path_average_weight chord_graph [''A'', ''B'', ''C''] = Inr 4
   \<and> consecutive_mean chord_graph [''A'', ''B'', ''C''] = 1
   \<and> length [''AA''] < 2
   \<and> path_average_weight loop_graph [''AA''] = Inr 5"
  by code_simp

section \<open>The graph of a single read\<close>

lemma count_kmer_new: "kmer \<notin> fst ` set d \<Longrightarrow> count_kmer d kmer = d @ [(kmer, 1)]"
  by (induction d) auto

lemma fold_count_kmer_distinct:
  "distinct ks \<Longrightarrow> set ks \<inter> fst ` set d = {} \<Longrightarrow>
   fold (\<lambda>kmer d. count_kmer d kmer) ks d = d @ map (\<lambda>k. (k, 1)) ks"
proof (induction ks arbitrary: d)
  case Nil
  show ?case by simp
next
  case (Cons k ks)
  from Cons.prems have new: "k \<notin> fst ` set d" by auto
  from Cons.prems have "set ks \<inter> fst ` set (d @ [(k, 1)]) = {}" by auto
  with Cons.IH [of "d @ [(k, 1)]"] Cons.prems(1) new show ?case
    by (simp add: count_kmer_new)
qed

lemma build_kmer_dict_single:
  "distinct (cut_kmer read k) \<Longrightarrow>
   build_kmer_dict [read] k = map (\<lambda>kmer. (kmer, 1)) (cut_kmer read k)"
  using fold_count_kmer_distinct [of "cut_kmer read k" "[]"]
  by (simp add: build_kmer_dict_def)

lemma build_graph_as_pairs:
  "fold (\<lambda>(kmer, weight) graph. add_edge (butlast kmer) (tl kmer) weight graph)
     (map (\<lambda>kmer. (kmer, 1)) ks) g0 =
   fold (\<lambda>uv graph. add_edge (fst uv) (snd uv) 1 graph)
     (map (\<lambda>kmer. (butlast kmer, tl kmer)) ks) g0"
  by (induction ks arbitrary: g0) auto

lemma length_cut_kmer: "length (cut_kmer read k) = length read + 1 - k"
  by (simp add: cut_kmer_def)

lemma nth_cut_kmer:
  "i < length read + 1 - k \<Longrightarrow> cut_kmer read k ! i = take k (drop i read)"
  by (simp add: cut_kmer_def)

lemma kmer_pairs:
  assumes "2 \<le> k" and "k \<le> length read"
  shows "map (\<lambda>kmer. (butlast kmer, tl kmer)) (cut_kmer read k) =
         consecutive_pairs (cut_kmer read (k - 1))"
proof (rule nth_equalityI)
  show "length (map (\<lambda>kmer. (butlast kmer, tl kmer)) (cut_kmer read k)) =
        length (consecutive_pairs (cut_kmer read (k - 1)))"
    using assms by (simp add: consecutive_pairs_def length_cut_kmer)
next
  fix i assume "i < length (map (\<lambda>kmer. (butlast kmer, tl kmer)) (cut_kmer read k))"
  then have i: "i < length read + 1 - k" by (simp add: length_cut_kmer)
  with assms have i1: "i < length read + 1 - (k - 1)" "Suc i < length read + 1 - (k - 1)"
    by auto
  have b: "butlast (take k (drop i read)) = take (k - 1) (drop i read)"
    using i assms by (simp add: butlast_take)
  have t: "tl (take k (drop i read)) = take (k - 1) (drop (Suc i) read)"
    by (simp add: tl_take tl_drop drop_Suc)
  have "consecutive_pairs (cut_kmer read (k - 1)) ! i =
        (cut_kmer read (k - 1) ! i, cut_kmer read (k - 1) ! Suc i)"
    using i1 by (simp add: consecutive_pairs_def length_cut_kmer nth_tl)
  with i i1 b t show "map (\<lambda>kmer. (butlast kmer, tl kmer)) (cut_kmer read k) ! i =
        consecutive_pairs (cut_kmer read (k - 1)) ! i"
    by (simp add: nth_cut_kmer length_cut_kmer)
qed

lemma chain_edges_snoc:
  "ys \<noteq> [] \<Longrightarrow> chain_edges (ys @ [y]) = chain_edges ys @ [(last ys, y, 1)]"
  by (simp add: chain_edges_def consecutive_pairs_snoc)

lemma chain_edges_targets: "e \<in> set (chain_edges xs) \<Longrightarrow> fst (snd e) \<in> set (tl xs)"
  by (auto simp: chain_edges_def consecutive_pairs_def dest: set_zip_rightD)

lemma chain_edges_sources: "e \<in> set (chain_edges xs) \<Longrightarrow> fst e \<in> set (butlast xs)"
proof -
  assume "e \<in> set (chain_edges xs)"
  then have "fst e \<in> set (map fst (zip xs (tl xs)))"
    by (force simp: chain_edges_def consecutive_pairs_def)
  then show ?thesis
    by (simp add: map_fst_zip_take butlast_conv_take min_absorb2)
qed

lemma in_tl_in_set: "x \<in> set (tl xs) \<Longrightarrow> x \<in> set xs"
  by (cases xs) auto

lemma add_edge_chain:
  assumes "ys \<noteq> []" and "y \<notin> set ys"
  shows "add_edge (last ys) y 1 (chain_graph ys) = chain_graph (ys @ [y])"
proof -
  have no: "\<not> (\<exists>e \<in> set (chain_edges ys). fst e = last ys \<and> fst (snd e) = y)"
    using assms(2) by (auto dest!: chain_edges_targets in_tl_in_set)
  from assms have "add_node y (add_node (last ys) (chain_graph ys)) =
        \<lparr>nodes = ys @ [y], edges = chain_edges ys\<rparr>"
    by (simp add: add_node_def chain_graph_def)
  with no assms(1) show ?thesis
    by (simp add: add_edge_def Let_def chain_graph_def chain_edges_snoc)
qed

lemma add_edge_first: "a \<noteq> b \<Longrightarrow> add_edge a b 1 empty_graph = chain_graph [a, b]"
  by (simp add: add_edge_def add_node_def empty_graph_def chain_graph_def chain_edges_def
      consecutive_pairs_def)

lemma fold_add_edge_chain:
  "distinct xs \<Longrightarrow>
   fold (\<lambda>uv graph. add_edge (fst uv) (snd uv) 1 graph) (consecutive_pairs xs) empty_graph =
     (if length xs < 2 then empty_graph else chain_graph xs)"
proof (induction xs rule: rev_induct)
  case Nil
  show ?case by (simp add: consecutive_pairs_def)
next
  case (snoc y ys)
  show ?case
  proof (cases "ys = []")
    case True
    then show ?thesis by (simp add: consecutive_pairs_def)
  next
    case False
    from snoc.prems have d: "distinct ys" and y: "y \<notin> set ys" by auto
    show ?thesis
    proof (cases "length ys < 2")
      case True
      with False obtain a where a: "ys = [a]" by (cases ys; cases "tl ys") auto
      with y have "a \<noteq> y" by auto
      with a show ?thesis
        by (simp add: consecutive_pairs_def add_edge_first)
    next
      case long: False
      with snoc.IH [OF d] False y show ?thesis
        by (simp add: consecutive_pairs_snoc add_edge_chain)
    qed
  qed
qed

lemma build_graph_single_read:
  assumes "2 \<le> k" and "k \<le> length read" and "distinct (cut_kmer read (k - 1))"
  shows "build_graph (build_kmer_dict [read] k) = chain_graph (cut_kmer read (k - 1))"
proof -
  have pairs: "map (\<lambda>kmer. (butlast kmer, tl kmer)) (cut_kmer read k) =
         consecutive_pairs (cut_kmer read (k - 1))"
    using assms(1,2) by (rule kmer_pairs)
  have "distinct (map fst (consecutive_pairs (cut_kmer read (k - 1))))"
    using assms(3)
    by (simp add: consecutive_pairs_def map_fst_zip_take)
  then have "distinct (map (fst \<circ> (\<lambda>kmer. (butlast kmer, tl kmer))) (cut_kmer read k))"
    using pairs by (metis map_map)
  then have dk: "distinct (cut_kmer read k)"
    by (simp add: distinct_map)
  have len: "\<not> length (cut_kmer read (k - 1)) < 2"
    using assms(1,2) by (simp add: length_cut_kmer)
  show ?thesis
    using fold_add_edge_chain [OF assms(3)] len
    by (simp add: build_graph_def build_kmer_dict_single [OF dk] build_graph_as_pairs pairs)
qed

lemma chain_targets_set: "set (map (\<lambda>e. fst (snd e)) (chain_edges xs)) = set (tl xs)"
proof -
  have "map (\<lambda>e. fst (snd e)) (chain_edges xs) = map snd (zip xs (tl xs))"
    by (simp add: chain_edges_def consecutive_pairs_def)
  then show ?thesis by (simp add: map_snd_zip_take min_absorb2)
qed

lemma chain_sources_set: "set (map fst (chain_edges xs)) = set (butlast xs)"
proof -
  have "map fst (chain_edges xs) = map fst (zip xs (tl xs))"
    by (simp add: chain_edges_def consecutive_pairs_def)
  then show ?thesis by (simp add: map_fst_zip_take butlast_conv_take min_absorb2)
qed

lemma nodes_chain_graph: "nodes (chain_graph xs) = xs"
  by (simp add: chain_graph_def)

lemma in_degree_chain: "in_degree (chain_graph xs) n = 0 \<longleftrightarrow> n \<notin> set (tl xs)"
proof -
  have "in_degree (chain_graph xs) n = 0 \<longleftrightarrow>
        n \<notin> set (map (\<lambda>e. fst (snd e)) (chain_edges xs))"
    by (auto simp: in_degree_def predecessors_def chain_graph_def filter_empty_conv)
  then show ?thesis by (simp only: chain_targets_set)
qed

lemma out_degree_chain: "out_degree (chain_graph xs) n = 0 \<longleftrightarrow> n \<notin> set (butlast xs)"
proof -
  have "out_degree (chain_graph xs) n = 0 \<longleftrightarrow> n \<notin> set (map fst (chain_edges xs))"
    by (auto simp: out_degree_def successors_def chain_graph_def filter_empty_conv)
  then show ?thesis by (simp only: chain_sources_set)
qed

lemma starting_nodes_chain:
  "distinct xs \<Longrightarrow> xs \<noteq> [] \<Longrightarrow> get_starting_nodes (chain_graph xs) = [hd xs]"
proof -
  assume d: "distinct xs" and ne: "xs \<noteq> []"
  then obtain x t where xs: "xs = x # t" by (cases xs) auto
  with d have "filter (\<lambda>n. n \<notin> set t) t = []" "x \<notin> set t"
    by (auto simp: filter_empty_conv)
  with xs show ?thesis
    by (simp add: get_starting_nodes_def in_degree_chain nodes_chain_graph)
qed

lemma sink_nodes_chain:
  "distinct xs \<Longrightarrow> xs \<noteq> [] \<Longrightarrow> get_sink_nodes (chain_graph xs) = [last xs]"
proof -
  assume d: "distinct xs" and ne: "xs \<noteq> []"
  from ne have xs: "xs = butlast xs @ [last xs]" by simp
  with d have l: "last xs \<notin> set (butlast xs)"
    by (metis distinct_append distinct.simps(2) disjoint_iff list.set_intros(1))
  have "filter (\<lambda>n. n \<notin> set (butlast xs)) (butlast xs @ [last xs]) = [last xs]"
    using l by (simp add: filter_empty_conv)
  with xs have "filter (\<lambda>n. n \<notin> set (butlast xs)) xs = [last xs]" by simp
  then show ?thesis
    by (simp add: get_sink_nodes_def out_degree_chain nodes_chain_graph)
qed

lemma successors_chain:
  "distinct xs \<Longrightarrow> Suc i < length xs \<Longrightarrow> successors (chain_graph xs) (xs ! i) = [xs ! Suc i]"
proof (induction xs arbitrary: i)
  case Nil
  then show ?case by simp
next
  case (Cons x t)
  then obtain y zs where t: "t = y # zs" by (cases t) auto
  have step: "chain_edges (x # y # zs) = (x, y, 1) # chain_edges (y # zs)"
    by (simp add: chain_edges_def consecutive_pairs_def)
  show ?case
  proof (cases i)
    case 0
    have "filter (\<lambda>e. fst e = x) (chain_edges (y # zs)) = []"
      using Cons.prems(1) t
      by (auto simp: filter_empty_conv dest!: chain_edges_sources in_set_butlastD)
    with 0 t show ?thesis
      by (simp add: successors_def chain_graph_def step)
  next
    case (Suc j)
    with Cons.prems have j: "Suc j < length t" by simp
    then have "t ! j \<in> set t" by simp
    with Cons.prems(1) have ne: "t ! j \<noteq> x" by auto
    from Cons.IH [OF _ j] Cons.prems(1)
    have "successors (chain_graph t) (t ! j) = [t ! Suc j]" by simp
    with Suc t ne show ?thesis
      by (simp add: successors_def chain_graph_def step)
  qed
qed

lemma explore_chain:
  assumes d: "distinct xs"
  shows "i < length xs \<Longrightarrow>
         explore (chain_graph xs) (last xs) (length xs - 1) (take i xs) [xs ! i] = [xs]"
proof (induction "length xs - i" arbitrary: i)
  case 0
  then show ?case by simp
next
  case (Suc m)
  from Suc.prems have ne: "xs \<noteq> []" by auto
  from d Suc.prems have fresh: "xs ! i \<notin> set (take i xs)"
    by (metis distinct_take id_take_nth_drop distinct_append not_distinct_conv_prefix
        append.assoc append_Cons append_Nil)
  show ?case
  proof (cases "Suc i = length xs")
    case True
    then have "i = length xs - 1" by simp
    then have l: "xs ! i = last xs" using ne by (simp add: last_conv_nth)
    from True have "take i xs @ [xs ! i] = xs"
      by (metis Suc.prems take_Suc_conv_app_nth take_all order_refl)
    with fresh l show ?thesis by simp
  next
    case False
    with Suc.prems have lt: "Suc i < length xs" by simp
    have nl: "xs ! i \<noteq> last xs"
      using d lt ne by (simp add: last_conv_nth nth_eq_iff_index_eq)
    have tl: "last xs \<notin> set (take i xs)"
    proof
      assume "last xs \<in> set (take i xs)"
      then obtain j where "j < i" "xs ! j = last xs"
        using lt by (auto simp: in_set_conv_nth)
      with d lt ne show False by (simp add: last_conv_nth nth_eq_iff_index_eq)
    qed
    have t: "take i xs @ [xs ! i] = take (Suc i) xs"
      using lt by (simp add: take_Suc_conv_app_nth)
    from Suc.hyps(2) lt have "m = length xs - Suc i" by simp
    from Suc.hyps(1) [OF this lt]
    have "explore (chain_graph xs) (last xs) (length xs - 1) (take (Suc i) xs) [xs ! Suc i] = [xs]" .
    with fresh nl tl lt t successors_chain [OF d lt] show ?thesis by simp
  qed
qed

lemma all_simple_paths_chain:
  "distinct xs \<Longrightarrow> xs \<noteq> [] \<Longrightarrow>
   all_simple_paths (chain_graph xs) (hd xs) (last xs) = Inr [xs]"
  using explore_chain [of xs 0]
  by (simp add: all_simple_paths_def chain_graph_def hd_conv_nth)

section \<open>Contigs of a single read\<close>

lemma closure_step:
  "y \<in> set (closure next k ys) \<Longrightarrow> z \<in> set (next y) \<Longrightarrow> z \<in> set (closure next (Suc k) ys)"
proof (induction k arbitrary: ys)
  case 0
  then show ?case by auto
next
  case (Suc k)
  from Suc.prems(1)
  have "y \<in> set (closure next k
          (ys @ filter (\<lambda>n. n \<notin> set ys) (remdups (concat (map next ys)))))"
    by simp
  from Suc.IH [OF this Suc.prems(2)] show ?case by simp
qed

lemma closure_mono: "set (closure next k ys) \<subseteq> set (closure next (Suc k) ys)"
proof (induction k arbitrary: ys)
  case 0
  show ?case by auto
next
  case (Suc k)
  from Suc.IH [of "ys @ filter (\<lambda>n. n \<notin> set ys) (remdups (concat (map next ys)))"]
  show ?case by simp
qed

lemma closure_mono_le: "i \<le> k \<Longrightarrow> set (closure next i ys) \<subseteq> set (closure next k ys)"
proof (induction k)
  case 0
  then show ?case by simp
next
  case (Suc k)
  show ?case
  proof (cases "i = Suc k")
    case True
    then show ?thesis by simp
  next
    case False
    with Suc.prems have "i \<le> k" by simp
    from Suc.IH [OF this] closure_mono [of "next" k ys] show ?thesis by blast
  qed
qed

lemma closure_chain:
  assumes d: "distinct xs"
  shows "i < length xs \<Longrightarrow> xs ! i \<in> set (closure (successors (chain_graph xs)) i [hd xs])"
proof (induction i)
  case 0
  then show ?case by (simp add: hd_conv_nth)
next
  case (Suc i)
  then have "xs ! i \<in> set (closure (successors (chain_graph xs)) i [hd xs])" by simp
  moreover have "xs ! Suc i \<in> set (successors (chain_graph xs) (xs ! i))"
    using successors_chain [OF d Suc.prems] by simp
  ultimately show ?case by (rule closure_step)
qed

lemma has_path_chain:
  assumes d: "distinct xs" and ne: "xs \<noteq> []"
  shows "has_path (chain_graph xs) (hd xs) (last xs) = Inr True"
proof -
  from ne have i: "length xs - 1 < length xs" by simp
  from closure_chain [OF d i] ne
  have "last xs \<in> set (closure (successors (chain_graph xs)) (length xs - 1) [hd xs])"
    by (simp add: last_conv_nth)
  with closure_mono_le [of "length xs - 1" "length xs" "successors (chain_graph xs)" "[hd xs]"]
  have "last xs \<in> set (closure (successors (chain_graph xs)) (length xs) [hd xs])"
    by auto
  with ne show ?thesis by (simp add: has_path_def nodes_chain_graph)
qed

lemma append_last_chars_ok:
  "[] \<notin> set ns \<Longrightarrow> append_last_chars contig ns = Inr (contig @ map last ns)"
  by (induction ns arbitrary: contig) auto

lemma append_last_chars_result:
  "append_last_chars contig ns = Inr c \<Longrightarrow> c = contig @ map last ns"
proof (induction ns arbitrary: contig)
  case Nil
  then show ?case by simp
next
  case (Cons n ns)
  then have "append_last_chars (contig @ [last n]) ns = Inr c"
    by (simp split: if_splits)
  from Cons.IH [OF this] show ?case by simp
qed

lemma contig_of_path_result: "contig_of_path path = Inr c \<Longrightarrow> c = spelled path"
  by (cases path) (auto simp: contig_of_path_def spelled_def dest: append_last_chars_result)

lemma spelled_cut_kmer:
  assumes "1 \<le> j" and "j \<le> length read"
  shows "spelled (cut_kmer read j) = read"
proof -
  let ?ms = "cut_kmer read j"
  from assms have ne: "?ms \<noteq> []"
    by (simp add: cut_kmer_def)
  have h: "hd ?ms = take j read"
    using assms ne by (simp add: hd_conv_nth nth_cut_kmer)
  have t: "map last (tl ?ms) = drop j read"
  proof (rule nth_equalityI)
    show "length (map last (tl ?ms)) = length (drop j read)"
      using assms by (simp add: length_cut_kmer)
  next
    fix i assume "i < length (map last (tl ?ms))"
    then have i: "i < length read - j" using assms by (simp add: length_cut_kmer)
    then have "tl ?ms ! i = take j (drop (Suc i) read)"
      using assms by (simp add: nth_tl length_cut_kmer nth_cut_kmer)
    moreover have "last (take j (drop (Suc i) read)) = drop (Suc i) read ! (j - 1)"
    proof -
      from assms i have l: "length (take j (drop (Suc i) read)) = j" by simp
      with assms have "take j (drop (Suc i) read) \<noteq> []" by auto
      from last_conv_nth [OF this] l assms show ?thesis by simp
    qed
    ultimately show "map last (tl ?ms) ! i = drop j read ! i"
      using assms i by (simp add: length_cut_kmer add.commute)
  qed
  from h t show ?thesis by (simp add: spelled_def)
qed

lemma contig_of_cut_kmer:
  assumes "1 \<le> j" and "j \<le> length read"
  shows "contig_of_path (cut_kmer read j) = Inr read"
proof -
  let ?ms = "cut_kmer read j"
  from assms have ne: "?ms \<noteq> []" by (simp add: cut_kmer_def)
  have "[] \<notin> set ?ms"
    using assms by (auto simp: cut_kmer_def)
  then have "[] \<notin> set (tl ?ms)" by (auto dest: in_tl_in_set)
  with ne have "contig_of_path ?ms = Inr (spelled ?ms)"
    by (cases ?ms) (auto simp: contig_of_path_def spelled_def append_last_chars_ok)
  with spelled_cut_kmer [OF assms] show ?thesis by simp
qed

lemma assemble_chain:
  assumes "2 \<le> k" and "k \<le> length read" and d: "distinct (cut_kmer read (k - 1))"
  shows "assemble [read] k = Inr [(read, length read)]"
proof -
  let ?ms = "cut_kmer read (k - 1)"
  from assms have ne: "?ms \<noteq> []" by (simp add: cut_kmer_def)
  have g: "build_graph (build_kmer_dict [read] k) = chain_graph ?ms"
    using assms by (rule build_graph_single_read)
  have c: "contig_of_path ?ms = Inr read"
    using assms(1,2) by (intro contig_of_cut_kmer) auto
  have "assemble [read] k = get_contigs (chain_graph ?ms) [hd ?ms] [last ?ms]"
    by (simp only: assemble_def g Let_def starting_nodes_chain [OF d ne]
        sink_nodes_chain [OF d ne])
  also have "\<dots> = contigs_from (chain_graph ?ms) [] (hd ?ms) [last ?ms]"
    by (simp only: get_contigs_def contigs_loop.simps sum.case split: sum.splits)
      (simp split: sum.splits)
  also have "\<dots> = Inr [(read, length read)]"
    by (simp only: contigs_from.simps has_path_chain [OF d ne] all_simple_paths_chain [OF d ne]
        contigs_of_paths.simps c sum.case bool.case append_Nil)
  finally show ?thesis .
qed

lemma contigs_of_paths_result:
  "contigs_of_paths acc paths = Inr cs \<Longrightarrow>
   cs = acc @ map (\<lambda>p. (spelled p, length (spelled p))) paths"
proof (induction paths arbitrary: acc)
  case Nil
  then show ?case by simp
next
  case (Cons p paths)
  then obtain c where c: "contig_of_path p = Inr c"
    and r: "contigs_of_paths (acc @ [(c, length c)]) paths = Inr cs"
    by (auto split: sum.splits)
  from Cons.IH [OF r] contig_of_path_result [OF c] show ?case by simp
qed

lemma contigs_from_result:
  "contigs_from g acc start ends = Inr cs \<Longrightarrow>
   set cs = set acc \<union>
     {(spelled p, length (spelled p)) | p e paths.
        e \<in> set ends \<and> has_path g start e = Inr True
        \<and> all_simple_paths g start e = Inr paths \<and> p \<in> set paths}"
proof (induction ends arbitrary: acc)
  case Nil
  then show ?case by simp
next
  case (Cons e ends)
  from Cons.prems obtain b where b: "has_path g start e = Inr b"
    by (auto split: sum.splits)
  show ?case
  proof (cases b)
    case False
    with b Cons.prems have "contigs_from g acc start ends = Inr cs" by simp
    from Cons.IH [OF this] b False show ?thesis by auto
  next
    case True
    with b Cons.prems obtain paths acc' where
      paths: "all_simple_paths g start e = Inr paths"
      and acc': "contigs_of_paths acc paths = Inr acc'"
      and r: "contigs_from g acc' start ends = Inr cs"
      by (auto split: sum.splits)
    from contigs_of_paths_result [OF acc']
    have "set acc' = set acc \<union> (\<lambda>p. (spelled p, length (spelled p))) ` set paths"
      by auto
    with Cons.IH [OF r] b True paths show ?thesis by auto
  qed
qed

lemma contigs_loop_result:
  "contigs_loop g acc starts ends = Inr cs \<Longrightarrow>
   set cs = set acc \<union>
     {(spelled p, length (spelled p)) | p s e paths.
        s \<in> set starts \<and> e \<in> set ends \<and> has_path g s e = Inr True
        \<and> all_simple_paths g s e = Inr paths \<and> p \<in> set paths}"
proof (induction starts arbitrary: acc)
  case Nil
  then show ?case by simp
next
  case (Cons s starts)
  then obtain acc' where a: "contigs_from g acc s ends = Inr acc'"
    and r: "contigs_loop g acc' starts ends = Inr cs"
    by (auto split: sum.splits)
  from Cons.IH [OF r] contigs_from_result [OF a] show ?case by auto
qed

lemma get_contigs_result:
  "get_contigs g starts ends = Inr cs \<Longrightarrow>
   set cs = {(spelled p, length (spelled p)) | p s e paths.
        s \<in> set starts \<and> e \<in> set ends \<and> has_path g s e = Inr True
        \<and> all_simple_paths g s e = Inr paths \<and> p \<in> set paths}"
  using contigs_loop_result [of g "[]" starts ends cs] by (simp add: get_contigs_def)

text \<open>
  C1. A read of length at least \<open>k\<close> without a repeated k-mer is to give exactly one contig,
  the read itself. The read \<open>TATAT\<close> with \<open>k = 4\<close> has the two different k-mers \<open>TATA\<close> and
  \<open>ATAT\<close>; its graph is the cycle between \<open>TAT\<close> and \<open>ATA\<close>, which has no source and no
  sink, and the assembly returns no contig.
\<close>

theorem repeated_node_counterexample:
  "4 \<le> length ''TATAT'' \<and> distinct (cut_kmer ''TATAT'' 4)
   \<and> build_graph (build_kmer_dict [''TATAT''] 4) =
       \<lparr>nodes = [''TAT'', ''ATA''], edges = [(''TAT'', ''ATA'', 1), (''ATA'', ''TAT'', 1)]\<rparr>
   \<and> assemble [''TATAT''] 4 = Inr []"
  by code_simp

text \<open>
  C1, as the code has it. A single read of length at least \<open>k\<close>, \<open>k\<close> at least 2, in which
  no (k-1)-mer occurs twice (no node of the graph is visited twice) gives exactly one
  contig, the read itself with its length. For any graph, the contigs that \<open>get_contigs\<close>
  returns are exactly the sequences of the simple paths enumerated from a starting node to
  a reachable ending node, each spelled as the first node's string followed by the last
  character of every later node.
\<close>

theorem assemble_single_read:
  "(2 \<le> k \<and> k \<le> length read \<and> distinct (cut_kmer read (k - 1))
      \<longrightarrow> assemble [read] k = Inr [(read, length read)])
   \<and> (get_contigs g starting_nodes ending_nodes = Inr contigs \<and> (c, l) \<in> set contigs
      \<longrightarrow> l = length c
          \<and> (\<exists>s \<in> set starting_nodes. \<exists>e \<in> set ending_nodes. \<exists>paths p.
                all_simple_paths g s e = Inr paths \<and> p \<in> set paths \<and> c = spelled p))
   \<and> (get_contigs g starting_nodes ending_nodes = Inr contigs
        \<and> s \<in> set starting_nodes \<and> e \<in> set ending_nodes \<and> has_path g s e = Inr True
        \<and> all_simple_paths g s e = Inr paths \<and> p \<in> set paths
      \<longrightarrow> (spelled p, length (spelled p)) \<in> set contigs)"
proof (intro conjI impI)
  assume "2 \<le> k \<and> k \<le> length read \<and> distinct (cut_kmer read (k - 1))"
  then show "assemble [read] k = Inr [(read, length read)]"
    using assemble_chain by blast
next
  assume a: "get_contigs g starting_nodes ending_nodes = Inr contigs \<and> (c, l) \<in> set contigs"
  with get_contigs_result [of g starting_nodes ending_nodes contigs]
  show "l = length c" by auto
  from a get_contigs_result [of g starting_nodes ending_nodes contigs]
  show "\<exists>s \<in> set starting_nodes. \<exists>e \<in> set ending_nodes. \<exists>paths p.
          all_simple_paths g s e = Inr paths \<and> p \<in> set paths \<and> c = spelled p"
    by auto
next
  assume "get_contigs g starting_nodes ending_nodes = Inr contigs
        \<and> s \<in> set starting_nodes \<and> e \<in> set ending_nodes \<and> has_path g s e = Inr True
        \<and> all_simple_paths g s e = Inr paths \<and> p \<in> set paths"
  with get_contigs_result [of g starting_nodes ending_nodes contigs]
  show "(spelled p, length (spelled p)) \<in> set contigs" by auto
qed

theorem assemble_single_read_witness:
  "(2::nat) \<le> 4 \<and> 4 \<le> length ''TATAAT'' \<and> distinct (cut_kmer ''TATAAT'' (4 - 1))
   \<and> build_graph (build_kmer_dict [''TATAAT''] 4) = chain_graph [''TAT'', ''ATA'', ''TAA'', ''AAT'']
   \<and> get_contigs (chain_graph [''TAT'', ''ATA'', ''TAA'', ''AAT'']) [''TAT''] [''AAT''] =
        Inr [(''TATAAT'', 6)]
   \<and> has_path (chain_graph [''TAT'', ''ATA'', ''TAA'', ''AAT'']) ''TAT'' ''AAT'' = Inr True
   \<and> all_simple_paths (chain_graph [''TAT'', ''ATA'', ''TAA'', ''AAT'']) ''TAT'' ''AAT'' =
        Inr [[''TAT'', ''ATA'', ''TAA'', ''AAT'']]
   \<and> spelled [''TAT'', ''ATA'', ''TAA'', ''AAT''] = ''TATAAT''
   \<and> assemble [''TATAAT''] 4 = Inr [(''TATAAT'', 6)]"
proof -
  have h1: "(2::nat) \<le> 4" "4 \<le> length ''TATAAT''" "distinct (cut_kmer ''TATAAT'' (4 - 1))"
    by code_simp+
  have h2: "build_graph (build_kmer_dict [''TATAAT''] 4) =
      chain_graph [''TAT'', ''ATA'', ''TAA'', ''AAT'']"
    by code_simp
  have h3: "get_contigs (chain_graph [''TAT'', ''ATA'', ''TAA'', ''AAT'']) [''TAT''] [''AAT''] =
        Inr [(''TATAAT'', 6)]"
    by code_simp
  have h4: "has_path (chain_graph [''TAT'', ''ATA'', ''TAA'', ''AAT'']) ''TAT'' ''AAT'' = Inr True"
    by code_simp
  have h5: "all_simple_paths (chain_graph [''TAT'', ''ATA'', ''TAA'', ''AAT'']) ''TAT'' ''AAT'' =
        Inr [[''TAT'', ''ATA'', ''TAA'', ''AAT'']]"
    by code_simp
  have h6: "spelled [''TAT'', ''ATA'', ''TAA'', ''AAT''] = ''TATAAT''"
    by code_simp
  from assemble_single_read [of 4 "''TATAAT''"] h1
  have "assemble [''TATAAT''] 4 = Inr [(''TATAAT'', 6)]" by simp
  with h1 h2 h3 h4 h5 h6 show ?thesis by blast
qed

end
